theory Spec2Isabelle
  imports Main "HOL-Library.AList"
begin

section \<open>Strings\<close>

text \<open>
  Python's \<^verbatim>\<open>s.split(sep)\<close> for a one-character separator: the text is cut at every
  occurrence of the separator, empty pieces are kept, and the result is never empty
  (\<^verbatim>\<open>"".split(".") == [""]\<close>).
\<close>

fun split :: "char \<Rightarrow> string \<Rightarrow> string list" where
  "split sep [] = [[]]"
| "split sep (c # cs) =
     (if c = sep then [] # split sep cs
      else (case split sep cs of [] \<Rightarrow> [[c]] | w # ws \<Rightarrow> (c # w) # ws))"

text \<open>\<^verbatim>\<open>sep.join(parts)\<close>, used only to say what \<open>split\<close> computes.\<close>

fun join :: "char \<Rightarrow> string list \<Rightarrow> string" where
  "join sep [] = []"
| "join sep [w] = w"
| "join sep (w # v # ws) = w @ sep # join sep (v # ws)"

text \<open>\<^verbatim>\<open>s.replace(old, new)\<close> for one-character \<^verbatim>\<open>old\<close> and \<^verbatim>\<open>new\<close>.\<close>

definition replace :: "char \<Rightarrow> char \<Rightarrow> string \<Rightarrow> string" where
  "replace old new s = map (\<lambda>c. if c = old then new else c) s"

text \<open>\<^verbatim>\<open>s.startswith(prefix)\<close>.\<close>

definition startswith :: "string \<Rightarrow> string \<Rightarrow> bool" where
  "startswith s prefix = (take (length prefix) s = prefix)"

text \<open>
  \<^verbatim>\<open>s.endswith(suffix)\<close>; a file name is matched by the glob pattern \<^verbatim>\<open>*.json\<close>
  exactly when it ends with \<^verbatim>\<open>.json\<close>.
\<close>

definition endswith :: "string \<Rightarrow> string \<Rightarrow> bool" where
  "endswith s suffix = (drop (length s - length suffix) s = suffix)"

text \<open>
  \<^verbatim>\<open>s.rfind(c)\<close>: the index of the last occurrence of the character, \<open>None\<close> for
  Python's \<^verbatim>\<open>-1\<close>.
\<close>

fun rfind :: "char \<Rightarrow> string \<Rightarrow> nat option" where
  "rfind c [] = None"
| "rfind c (x # xs) =
     (case rfind c xs of
        Some i \<Rightarrow> Some (Suc i)
      | None \<Rightarrow> if x = c then Some 0 else None)"

section \<open>JSON values\<close>

text \<open>
  The payloads of events and of state records are JSON-serialisable values. Integers are
  Python's unbounded integers; an object is kept as an association list. Floating-point
  numbers are not modelled.
\<close>

datatype json =
  JNull | JBool bool | JInt int | JStr string | JArr "json list" | JObj "(string \<times> json) list"

type_synonym dict = "(string \<times> json) list"

section \<open>Event bus: pattern matching\<close>

text \<open>
  The loop of \<^verbatim>\<open>EventBus._matches_pattern\<close> over
  \<^verbatim>\<open>zip(event_parts, pattern_parts)\<close>: the first position whose pattern part is neither
  the wildcard nor the event's part returns False.
\<close>

fun match_parts :: "(string \<times> string) list \<Rightarrow> bool" where
  "match_parts [] = True"
| "match_parts ((event_part, pattern_part) # rest) =
     (if pattern_part \<noteq> ''*'' \<and> pattern_part \<noteq> event_part then False
      else match_parts rest)"

definition matches_pattern :: "string \<Rightarrow> string \<Rightarrow> bool" where
  "matches_pattern event_type pattern =
     (if pattern = ''*'' then True
      else
        let event_parts = split CHR ''.'' event_type;
            pattern_parts = split CHR ''.'' pattern
        in if length event_parts \<noteq> length pattern_parts then False
           else match_parts (zip event_parts pattern_parts))"

section \<open>Event bus: data\<close>

text \<open>
  The frozen dataclass \<^verbatim>\<open>Event\<close>. The field \<^verbatim>\<open>id\<close> is called \<open>event_id\<close> here, and the
  timestamp is a point on a discrete clock.
\<close>

record Event =
  type :: string
  data :: dict
  source :: string
  timestamp :: nat
  event_id :: string

text \<open>
  A handler is a Python callable stored in a \<^verbatim>\<open>set\<close>, so it is compared by object
  identity. The model names each handler object by a number and takes the behaviour of
  the handlers as a separate table: run on an event, a handler changes the world outside
  the bus and then either returns or raises an \<^verbatim>\<open>Exception\<close> with a message. Exceptions
  outside the \<^verbatim>\<open>Exception\<close> hierarchy (\<^verbatim>\<open>KeyboardInterrupt\<close>, \<^verbatim>\<open>SystemExit\<close>) are not
  modelled, and neither is a handler that calls back into the bus.
\<close>

type_synonym hid = nat

datatype outcome = Returned | Raised string

text \<open>
  The world outside the bus: the handlers' own state, the lines written by \<^verbatim>\<open>print\<close>,
  and a record of every handler call with the event it received and how it ended. The
  record of calls is not in the source; it is what the claims about invocations are
  stated on.
\<close>

record 'w world =
  store :: 'w
  printed :: "string list"
  trace :: "(hid \<times> Event \<times> outcome) list"

type_synonym 'w handler_impl = "hid \<Rightarrow> Event \<Rightarrow> 'w \<Rightarrow> outcome \<times> 'w"

text \<open>
  A middleware is an async function from an event to an event; \<open>Inl\<close> is the message
  of an exception it raises.
\<close>

type_synonym middleware_fn = "Event \<Rightarrow> string + Event"

text \<open>
  The state of an \<^verbatim>\<open>EventBus\<close>. \<^verbatim>\<open>_handlers\<close> is a \<^verbatim>\<open>defaultdict(set)\<close>: an
  association list in insertion order of the patterns, each with the list of its distinct
  handlers. The list order stands for the iteration order of the Python set, which the
  source leaves open. The lock is not modelled: the operations below run one at a time.
\<close>

record EventBus =
  handlers :: "(string \<times> hid list) list"
  middleware :: "middleware_fn list"
  history :: "Event list"
  max_history :: nat

definition EventBus_init :: EventBus where
  "EventBus_init = \<lparr>handlers = [], middleware = [], history = [], max_history = 1000\<rparr>"

section \<open>Event bus: operations\<close>

text \<open>
  \<^verbatim>\<open>set.add\<close>, \<^verbatim>\<open>set.discard\<close> and \<^verbatim>\<open>set.update\<close> on a set kept as a list without
  repetitions.
\<close>

definition set_add :: "'a \<Rightarrow> 'a list \<Rightarrow> 'a list" where
  "set_add h hs = (if h \<in> set hs then hs else hs @ [h])"

definition set_discard :: "'a \<Rightarrow> 'a list \<Rightarrow> 'a list" where
  "set_discard h hs = filter (\<lambda>x. x \<noteq> h) hs"

definition set_update :: "'a list \<Rightarrow> 'a list \<Rightarrow> 'a list" where
  "set_update acc hs = fold set_add hs acc"

text \<open>
  \<^verbatim>\<open>self._handlers[event_type].add(handler)\<close>: reading a missing key of the
  \<^verbatim>\<open>defaultdict\<close> first creates it with an empty set.
\<close>

fun handlers_add :: "(string \<times> hid list) list \<Rightarrow> string \<Rightarrow> hid \<Rightarrow> (string \<times> hid list) list" where
  "handlers_add [] event_type handler = [(event_type, [handler])]"
| "handlers_add ((p, hs) # rest) event_type handler =
     (if p = event_type then (p, set_add handler hs) # rest
      else (p, hs) # handlers_add rest event_type handler)"

definition on :: "string \<Rightarrow> hid \<Rightarrow> EventBus \<Rightarrow> EventBus" where
  "on event_type handler bus =
     bus\<lparr>handlers := handlers_add (handlers bus) event_type handler\<rparr>"

definition off :: "string \<Rightarrow> hid \<Rightarrow> EventBus \<Rightarrow> bool \<times> EventBus" where
  "off event_type handler bus =
     (if event_type \<in> fst ` set (handlers bus)
      then (True, bus\<lparr>handlers :=
              map (\<lambda>(p, hs). if p = event_type then (p, set_discard handler hs) else (p, hs))
                (handlers bus)\<rparr>)
      else (False, bus))"

definition use :: "middleware_fn \<Rightarrow> EventBus \<Rightarrow> EventBus" where
  "use mw bus = bus\<lparr>middleware := middleware bus @ [mw]\<rparr>"

definition clear_history :: "EventBus \<Rightarrow> EventBus" where
  "clear_history bus = bus\<lparr>history := []\<rparr>"

text \<open>
  The middleware loop of \<^verbatim>\<open>emit\<close>: each middleware receives the result of the one
  before; an exception leaves the loop and \<^verbatim>\<open>emit\<close>.
\<close>

fun run_middleware :: "middleware_fn list \<Rightarrow> Event \<Rightarrow> string + Event" where
  "run_middleware [] processed_event = Inr processed_event"
| "run_middleware (mw # rest) processed_event =
     (case mw processed_event of
        Inl exn \<Rightarrow> Inl exn
      | Inr e \<Rightarrow> run_middleware rest e)"

text \<open>
  The loop of \<^verbatim>\<open>emit\<close> over \<^verbatim>\<open>self._handlers.items()\<close> that collects the handlers of
  every pattern matching the given event type.
\<close>

fun matching_handlers :: "(string \<times> hid list) list \<Rightarrow> string \<Rightarrow> hid list \<Rightarrow> hid list" where
  "matching_handlers [] event_type acc = acc"
| "matching_handlers ((pattern, pattern_handlers) # rest) event_type acc =
     matching_handlers rest event_type
       (if matches_pattern event_type pattern then set_update acc pattern_handlers else acc)"

text \<open>
  \<^verbatim>\<open>_call_handler\<close>: the handler runs inside \<^verbatim>\<open>try\<close>; an exception is printed and
  not raised again.
\<close>

definition call_handler :: "'w handler_impl \<Rightarrow> hid \<Rightarrow> Event \<Rightarrow> 'w world \<Rightarrow> 'w world" where
  "call_handler impl handler event w =
     (case impl handler event (store w) of
        (Returned, s) \<Rightarrow> w\<lparr>store := s, trace := trace w @ [(handler, event, Returned)]\<rparr>
      | (Raised e, s) \<Rightarrow>
          w\<lparr>store := s,
            printed := printed w @ [''Event handler error for '' @ type event @ '': '' @ e],
            trace := trace w @ [(handler, event, Raised e)]\<rparr>)"

text \<open>
  \<^verbatim>\<open>asyncio.gather\<close> over the calls. Each call is taken to run without interleaving,
  in the order of the list; this is the schedule of handlers that never suspend.
\<close>

definition gather :: "'w handler_impl \<Rightarrow> hid list \<Rightarrow> Event \<Rightarrow> 'w world \<Rightarrow> 'w world" where
  "gather impl hs event w = fold (\<lambda>h. call_handler impl h event) hs w"

text \<open>
  \<^verbatim>\<open>emit\<close>. The first component of the result is \<open>Inl\<close> when an exception reaches the
  caller.
\<close>

definition emit ::
  "'w handler_impl \<Rightarrow> Event \<Rightarrow> EventBus \<times> 'w world \<Rightarrow> (string + unit) \<times> EventBus \<times> 'w world" where
  "emit impl event bw =
     (let (bus, w) = bw;
          appended = history bus @ [event];
          bus' = bus\<lparr>history :=
                   (if length appended > max_history bus then tl appended else appended)\<rparr>
      in case run_middleware (middleware bus') event of
           Inl exn \<Rightarrow> (Inl exn, bus', w)
         | Inr processed_event \<Rightarrow>
             let hs = matching_handlers (handlers bus') (type event) []
             in if hs = [] then (Inr (), bus', w)
                else (Inr (), bus', gather impl hs processed_event w))"

section \<open>State store: data\<close>

text \<open>
  The dataclass \<^verbatim>\<open>State\<close>; the field \<^verbatim>\<open>value\<close> is called \<open>val\<close>. \<open>State_init\<close> is the
  constructor with \<^verbatim>\<open>__post_init__\<close>, which replaces a missing metadata mapping by the
  empty one.
\<close>

record State =
  key :: string
  val :: json
  version :: int
  metadata :: dict

definition State_init :: "string \<Rightarrow> json \<Rightarrow> int \<Rightarrow> dict option \<Rightarrow> State" where
  "State_init k v n md =
     \<lparr>key = k, val = v, version = n,
      metadata = (case md of None \<Rightarrow> [] | Some m \<Rightarrow> m)\<rparr>"

text \<open>
  What \<^verbatim>\<open>json.loads(file_path.read_text())\<close> yields for a file of the state directory:
  text that does not decode (\<^verbatim>\<open>JSONDecodeError\<close>), or an object in which each of the four
  fields of the file layout may be missing. Documents that are not objects, or whose
  fields have other types than the layout gives them, are outside this type.
\<close>

record document =
  doc_key :: "string option"
  doc_value :: "json option"
  doc_version :: "int option"
  doc_metadata :: "dict option"

datatype file_content = Undecodable | Decoded document

text \<open>
  The state directory \<^verbatim>\<open>base_dir\<close>: its file names with their contents, in the order in
  which the directory lists them.
\<close>

type_synonym directory = "(string \<times> file_content) list"

section \<open>State store: file backend\<close>

text \<open>
  \<^verbatim>\<open>_file_path\<close>, as the name of the file inside \<^verbatim>\<open>base_dir\<close>. \<open>CHR 0x5C\<close> is the
  backslash.
\<close>

definition file_path :: "string \<Rightarrow> string" where
  "file_path k =
     (let safe_key = replace (CHR 0x5C) CHR ''_'' (replace CHR ''/'' CHR ''_'' k)
      in safe_key @ ''.json'')"

definition FileStateBackend_get :: "directory \<Rightarrow> string \<Rightarrow> State option" where
  "FileStateBackend_get dir k =
     (case map_of dir (file_path k) of
        None \<Rightarrow> None
      | Some Undecodable \<Rightarrow> None
      | Some (Decoded d) \<Rightarrow>
          (case doc_key d of
             None \<Rightarrow> None
           | Some k' \<Rightarrow>
               (case doc_value d of
                  None \<Rightarrow> None
                | Some v \<Rightarrow>
                    Some (State_init k' v
                            (case doc_version d of None \<Rightarrow> 1 | Some n \<Rightarrow> n)
                            (Some (case doc_metadata d of None \<Rightarrow> [] | Some m \<Rightarrow> m))))))"

text \<open>
  \<^verbatim>\<open>FileStateBackend.set\<close>. \<^verbatim>\<open>write_text\<close> replaces the content of an existing file
  and creates a missing one.
\<close>

definition FileStateBackend_set :: "directory \<Rightarrow> State \<Rightarrow> bool \<times> directory" where
  "FileStateBackend_set dir state =
     (let path = file_path (key state);
          existing = FileStateBackend_get dir (key state)
      in if (case existing of None \<Rightarrow> False | Some ex \<Rightarrow> version ex \<noteq> version state - 1)
         then (False, dir)
         else
           let d = \<lparr>doc_key = Some (key state), doc_value = Some (val state),
                    doc_version = Some (version state), doc_metadata = Some (metadata state)\<rparr>
           in (True, AList.update path (Decoded d) dir))"

definition FileStateBackend_delete :: "directory \<Rightarrow> string \<Rightarrow> bool \<times> directory" where
  "FileStateBackend_delete dir k =
     (let path = file_path k
      in if map_of dir path \<noteq> None then (True, AList.delete path dir) else (False, dir))"

text \<open>
  \<^verbatim>\<open>Path.stem\<close>: the name without its last suffix; a name whose only dot is the first
  or the last character has no suffix.
\<close>

definition stem :: "string \<Rightarrow> string" where
  "stem name =
     (case rfind CHR ''.'' name of
        None \<Rightarrow> name
      | Some i \<Rightarrow> if 0 < i \<and> i < length name - 1 then take i name else name)"

definition glob_json :: "directory \<Rightarrow> string list" where
  "glob_json dir = filter (\<lambda>name. endswith name ''.json'') (map fst dir)"

definition FileStateBackend_list_keys :: "directory \<Rightarrow> string \<Rightarrow> string list" where
  "FileStateBackend_list_keys dir prefix =
     filter (\<lambda>k. startswith k prefix) (map stem (glob_json dir))"

section \<open>State store: manager\<close>

text \<open>
  \<^verbatim>\<open>StateManager\<close> over the file backend. \<^verbatim>\<open>metadata or {}\<close> turns both a missing
  and an empty mapping into the empty mapping.
\<close>

definition StateManager_set :: "directory \<Rightarrow> string \<Rightarrow> json \<Rightarrow> dict option \<Rightarrow> directory" where
  "StateManager_set dir k v md =
     (let existing = FileStateBackend_get dir k;
          n = (case existing of Some ex \<Rightarrow> version ex + 1 | None \<Rightarrow> 1);
          state = State_init k v n
                    (Some (case md of None \<Rightarrow> [] | Some [] \<Rightarrow> [] | Some m \<Rightarrow> m))
      in snd (FileStateBackend_set dir state))"

definition StateManager_update ::
  "directory \<Rightarrow> string \<Rightarrow> json \<Rightarrow> int option \<Rightarrow> bool \<times> directory" where
  "StateManager_update dir k v expected =
     (let existing = FileStateBackend_get dir k
      in if (case expected of
               None \<Rightarrow> False
             | Some n \<Rightarrow> (case existing of None \<Rightarrow> True | Some ex \<Rightarrow> version ex \<noteq> n))
         then (False, dir)
         else
           let new_version = (case existing of Some ex \<Rightarrow> version ex + 1 | None \<Rightarrow> 1);
               state = State_init k v new_version
                         (Some (case existing of Some ex \<Rightarrow> metadata ex | None \<Rightarrow> []))
           in FileStateBackend_set dir state)"

definition StateManager_list :: "directory \<Rightarrow> string \<Rightarrow> string list" where
  "StateManager_list dir prefix = FileStateBackend_list_keys dir prefix"

section \<open>Event bus: sequences of operations\<close>

text \<open>
  The calls a client can make that change a bus. \<^verbatim>\<open>get_history\<close> and
  \<^verbatim>\<open>handler_count\<close> only read it. A client that catches the exception of a failed
  \<^verbatim>\<open>emit\<close> goes on with the bus as that call left it.
\<close>

datatype bus_op =
  Op_on string hid | Op_off string hid | Op_use middleware_fn | Op_emit Event | Op_clear_history

fun step :: "'w handler_impl \<Rightarrow> bus_op \<Rightarrow> EventBus \<times> 'w world \<Rightarrow> EventBus \<times> 'w world" where
  "step impl (Op_on p h) (bus, w) = (on p h bus, w)"
| "step impl (Op_off p h) (bus, w) = (snd (off p h bus), w)"
| "step impl (Op_use mw) (bus, w) = (use mw bus, w)"
| "step impl (Op_emit ev) (bus, w) = snd (emit impl ev (bus, w))"
| "step impl Op_clear_history (bus, w) = (clear_history bus, w)"

definition run :: "'w handler_impl \<Rightarrow> bus_op list \<Rightarrow> EventBus \<times> 'w world \<Rightarrow> EventBus \<times> 'w world" where
  "run impl ops bw = fold (step impl) ops bw"

text \<open>
  The events emitted by a sequence of operations since its last \<^verbatim>\<open>clear_history\<close>, in
  the order of emission, after the events \<open>acc\<close> emitted before the sequence.
\<close>

fun since_clear :: "Event list \<Rightarrow> bus_op list \<Rightarrow> Event list" where
  "since_clear acc [] = acc"
| "since_clear acc (Op_emit ev # ops) = since_clear (acc @ [ev]) ops"
| "since_clear acc (Op_clear_history # ops) = since_clear [] ops"
| "since_clear acc (Op_on p h # ops) = since_clear acc ops"
| "since_clear acc (Op_off p h # ops) = since_clear acc ops"
| "since_clear acc (Op_use mw # ops) = since_clear acc ops"

section \<open>Event bus: what a dispatch does, call by call\<close>

text \<open>
  The handlers' state before each call of a dispatch, when the handlers \<open>hs\<close> run one
  after the other from state \<open>s\<close>: a handler leaves its state to the next one whether it
  returned or raised.
\<close>

fun stores_before :: "'w handler_impl \<Rightarrow> hid list \<Rightarrow> Event \<Rightarrow> 'w \<Rightarrow> 'w list" where
  "stores_before impl [] ev s = []"
| "stores_before impl (h # hs) ev s = s # stores_before impl hs ev (snd (impl h ev s))"

text \<open>
  The lines that a call ending in the given way adds to the output: none when the
  handler returned, the line of \<^verbatim>\<open>_call_handler\<close>'s \<^verbatim>\<open>except\<close> branch when it raised.
\<close>

definition error_lines :: "Event \<Rightarrow> outcome \<Rightarrow> string list" where
  "error_lines ev out =
     (case out of
        Returned \<Rightarrow> []
      | Raised e \<Rightarrow> [''Event handler error for '' @ type ev @ '': '' @ e])"

section \<open>Concrete buses and stores\<close>

text \<open>
  An event with the defaults of the dataclass, a world in which nothing has happened,
  handlers that all return, and the handlers of the repository's test of error isolation:
  handler 1 raises, every other handler counts its call.
\<close>

definition new_event :: "string \<Rightarrow> Event" where
  "new_event t = \<lparr>type = t, data = [], source = ''unknown'', timestamp = 0, event_id = ''0''\<rparr>"

definition world0 :: "nat world" where
  "world0 = \<lparr>store = 0, printed = [], trace = []\<rparr>"

definition quiet :: "nat handler_impl" where
  "quiet h ev s = (Returned, s)"

definition failing_first :: "nat handler_impl" where
  "failing_first h ev s = (if h = 1 then (Raised ''Handler error'', s) else (Returned, s + 1))"

text \<open>
  A middleware that returns a copy of the event under another type, and a bus using it
  with one handler on the old type and one on the new.
\<close>

definition retype :: middleware_fn where
  "retype ev = Inr (ev\<lparr>type := ''b''\<rparr>)"

definition retype_bus :: EventBus where
  "retype_bus = use retype (on ''b'' 2 (on ''a'' 1 EventBus_init))"

text \<open>
  Handlers that count their calls, a middleware that raises, and a bus using it with one
  handler registered twice under one pattern.
\<close>

definition counting :: "nat handler_impl" where
  "counting h ev s = (Returned, s + 1)"

definition raising :: middleware_fn where
  "raising ev = Inl ''middleware error''"

definition raising_bus :: EventBus where
  "raising_bus = use raising (on ''test.*'' 7 (on ''test.*'' 7 EventBus_init))"

text \<open>
  The bus of the test of error isolation: two handlers on one pattern.
\<close>

definition test_bus :: EventBus where
  "test_bus = on ''test.event'' 2 (on ''test.event'' 1 EventBus_init)"

text \<open>
  A state directory with one readable record, used to instantiate the theorems below.
\<close>

definition dir1 :: directory where
  "dir1 = [(''k.json'', Decoded \<lparr>doc_key = Some ''k'', doc_value = Some JNull,
                                  doc_version = Some 3, doc_metadata = Some [(''by'', JStr ''a'')]\<rparr>)]"

section \<open>Facts about strings\<close>

lemma split_not_Nil: "split sep s \<noteq> []"
  by (induction s) (auto split: list.splits)

lemma join_Cons: "ws \<noteq> [] \<Longrightarrow> join sep (w # ws) = w @ sep # join sep ws"
  by (cases ws) simp_all

lemma join_split: "join sep (split sep s) = s"
proof (induction s)
  case Nil
  show ?case by simp
next
  case (Cons c cs)
  obtain w ws where eq: "split sep cs = w # ws"
    using split_not_Nil [of sep cs] by (cases "split sep cs") auto
  show ?case
  proof (cases "c = sep")
    case True
    with Cons show ?thesis by (simp add: join_Cons split_not_Nil)
  next
    case False
    from Cons eq have "join sep (w # ws) = cs" by simp
    with False eq show ?thesis by (cases ws) simp_all
  qed
qed

lemma split_no_sep: "seg \<in> set (split sep s) \<Longrightarrow> sep \<notin> set seg"
proof (induction s arbitrary: seg)
  case Nil
  then show ?case by simp
next
  case (Cons c cs)
  then show ?case
    by (auto split: if_splits list.splits)
qed

lemma match_parts_iff:
  "match_parts zs = (\<forall>z \<in> set zs. snd z = ''*'' \<or> snd z = fst z)"
  by (induction zs rule: match_parts.induct) auto

section \<open>Facts about the file backend\<close>

lemma get_after_write:
  "FileStateBackend_get
     (AList.update (file_path k)
        (Decoded \<lparr>doc_key = Some k', doc_value = Some v, doc_version = Some n,
                  doc_metadata = Some m\<rparr>) dir) k
   = Some \<lparr>key = k', val = v, version = n, metadata = m\<rparr>"
  by (simp add: FileStateBackend_get_def update_conv' State_init_def)

lemma set_accepts:
  "\<not> (case FileStateBackend_get dir (key st) of None \<Rightarrow> False
        | Some ex \<Rightarrow> version ex \<noteq> version st - 1) \<Longrightarrow>
   FileStateBackend_set dir st =
     (True, AList.update (file_path (key st))
        (Decoded \<lparr>doc_key = Some (key st), doc_value = Some (val st),
                  doc_version = Some (version st), doc_metadata = Some (metadata st)\<rparr>) dir)"
  by (simp add: FileStateBackend_set_def Let_def)

lemma set_rejects:
  "FileStateBackend_get dir (key st) = Some ex \<Longrightarrow> version ex \<noteq> version st - 1 \<Longrightarrow>
   FileStateBackend_set dir st = (False, dir)"
  by (simp add: FileStateBackend_set_def Let_def)

lemma update_conflict:
  "FileStateBackend_get dir k = None \<or>
     (\<exists>ex. FileStateBackend_get dir k = Some ex \<and> version ex \<noteq> n) \<Longrightarrow>
   StateManager_update dir k v (Some n) = (False, dir)"
  by (auto simp: StateManager_update_def Let_def)

lemma update_proceeds:
  assumes "FileStateBackend_get dir k = Some ex"
    and "expected = None \<or> expected = Some (version ex)"
  shows "StateManager_update dir k v expected =
     (True, AList.update (file_path k)
        (Decoded \<lparr>doc_key = Some k, doc_value = Some v,
                  doc_version = Some (version ex + 1), doc_metadata = Some (metadata ex)\<rparr>) dir)"
proof -
  let ?st = "State_init k v (version ex + 1) (Some (metadata ex))"
  have "StateManager_update dir k v expected = FileStateBackend_set dir ?st"
    using assms by (auto simp: StateManager_update_def Let_def)
  moreover have "FileStateBackend_set dir ?st =
     (True, AList.update (file_path (key ?st))
        (Decoded \<lparr>doc_key = Some (key ?st), doc_value = Some (val ?st),
                  doc_version = Some (version ?st), doc_metadata = Some (metadata ?st)\<rparr>) dir)"
    by (rule set_accepts) (simp add: assms(1) State_init_def)
  ultimately show ?thesis by (simp add: State_init_def)
qed

lemma get_dir1:
  "FileStateBackend_get dir1 ''k''
     = Some \<lparr>key = ''k'', val = JNull, version = 3, metadata = [(''by'', JStr ''a'')]\<rparr>"
  by (simp add: dir1_def FileStateBackend_get_def file_path_def replace_def State_init_def)

lemma manager_set_writes:
  "StateManager_set dir k v md =
     AList.update (file_path k)
       (Decoded \<lparr>doc_key = Some k, doc_value = Some v,
          doc_version = Some (case FileStateBackend_get dir k of Some ex \<Rightarrow> version ex + 1 | None \<Rightarrow> 1),
          doc_metadata = Some (case md of None \<Rightarrow> [] | Some m \<Rightarrow> m)\<rparr>) dir"
proof -
  let ?n = "case FileStateBackend_get dir k of Some ex \<Rightarrow> version ex + 1 | None \<Rightarrow> 1"
  let ?m = "case md of None \<Rightarrow> [] | Some [] \<Rightarrow> [] | Some m \<Rightarrow> m"
  let ?st = "State_init k v ?n (Some ?m)"
  have m: "?m = (case md of None \<Rightarrow> [] | Some m \<Rightarrow> m)"
    by (simp split: option.splits list.splits)
  have "StateManager_set dir k v md = snd (FileStateBackend_set dir ?st)"
    by (simp add: StateManager_set_def Let_def)
  moreover have "FileStateBackend_set dir ?st =
     (True, AList.update (file_path (key ?st))
        (Decoded \<lparr>doc_key = Some (key ?st), doc_value = Some (val ?st),
                  doc_version = Some (version ?st), doc_metadata = Some (metadata ?st)\<rparr>) dir)"
    by (rule set_accepts) (simp add: State_init_def split: option.splits)
  ultimately show ?thesis
    unfolding m by (simp add: State_init_def)
qed

section \<open>Facts about the event bus\<close>

lemma set_set_add: "set (set_add h hs) = insert h (set hs)"
  by (auto simp: set_add_def)

lemma distinct_set_add: "distinct hs \<Longrightarrow> distinct (set_add h hs)"
  by (simp add: set_add_def)

lemma set_add_idem: "set_add h (set_add h hs) = set_add h hs"
  by (simp add: set_add_def)

lemma set_set_update: "set (set_update acc hs) = set acc \<union> set hs"
  unfolding set_update_def by (induction hs arbitrary: acc) (auto simp: set_set_add)

lemma distinct_set_update: "distinct acc \<Longrightarrow> distinct (set_update acc hs)"
  unfolding set_update_def by (induction hs arbitrary: acc) (auto simp: distinct_set_add)

lemma set_matching_handlers:
  "set (matching_handlers hl t acc) =
     set acc \<union> (\<Union>x \<in> {x \<in> set hl. matches_pattern t (fst x)}. set (snd x))"
  by (induction hl t acc rule: matching_handlers.induct) (auto simp: set_set_update)

lemma distinct_matching_handlers:
  "distinct acc \<Longrightarrow> distinct (matching_handlers hl t acc)"
  by (induction hl t acc rule: matching_handlers.induct) (auto simp: distinct_set_update)

lemma handlers_add_idem:
  "handlers_add (handlers_add hl p h) p h = handlers_add hl p h"
  by (induction hl p h rule: handlers_add.induct) (auto simp: set_add_idem set_add_def)

lemma handlers_add_registers:
  "\<exists>hs. (p, hs) \<in> set (handlers_add hl p h) \<and> h \<in> set hs"
  by (induction hl p h rule: handlers_add.induct) (auto simp: set_set_add)

lemma trace_call_handler:
  "trace (call_handler impl h ev w) = trace w @ [(h, ev, fst (impl h ev (store w)))]"
  by (auto simp: call_handler_def split: prod.splits outcome.splits)

lemma printed_call_handler:
  "length (printed (call_handler impl h ev w)) =
     length (printed w) + (if fst (impl h ev (store w)) = Returned then 0 else 1)"
  by (auto simp: call_handler_def split: prod.splits outcome.splits)

lemma gather_effect:
  "\<exists>new. trace (gather impl hs ev w) = trace w @ new
      \<and> map fst new = hs
      \<and> (\<forall>x \<in> set new. fst (snd x) = ev)
      \<and> length (printed (gather impl hs ev w)) =
          length (printed w) + length (filter (\<lambda>x. snd (snd x) \<noteq> Returned) new)"
proof (induction hs arbitrary: w)
  case Nil
  show ?case by (simp add: gather_def)
next
  case (Cons h hs)
  let ?w1 = "call_handler impl h ev w"
  let ?e = "(h, ev, fst (impl h ev (store w)))"
  from Cons [of ?w1] obtain new where new:
    "trace (gather impl hs ev ?w1) = trace ?w1 @ new" "map fst new = hs"
    "\<forall>x \<in> set new. fst (snd x) = ev"
    "length (printed (gather impl hs ev ?w1)) =
       length (printed ?w1) + length (filter (\<lambda>x. snd (snd x) \<noteq> Returned) new)"
    by blast
  have g: "gather impl (h # hs) ev w = gather impl hs ev ?w1"
    by (simp add: gather_def)
  have a: "trace (gather impl (h # hs) ev w) = trace w @ (?e # new)"
    using new(1) by (simp add: g trace_call_handler)
  have b: "map fst (?e # new) = h # hs"
    using new(2) by simp
  have c: "\<forall>x \<in> set (?e # new). fst (snd x) = ev"
    using new(3) by simp
  have d: "length (printed (gather impl (h # hs) ev w)) =
      length (printed w) + length (filter (\<lambda>x. snd (snd x) \<noteq> Returned) (?e # new))"
    using new(4) by (simp add: g printed_call_handler)
  show ?case
    by (rule exI [of _ "?e # new"]) (intro conjI a b c d)
qed

lemma emit_bus:
  "fst (snd (emit impl ev (bus, w))) =
     bus\<lparr>history := (if length (history bus) + 1 > max_history bus
                      then tl (history bus @ [ev]) else history bus @ [ev])\<rparr>"
  by (simp add: emit_def Let_def split: sum.splits)

lemma emit_result:
  "fst (emit impl ev (bus, w)) =
     (case run_middleware (middleware bus) ev of Inl e \<Rightarrow> Inl e | Inr pe \<Rightarrow> Inr ())"
  by (simp add: emit_def Let_def split: sum.splits)

lemma emit_world:
  "run_middleware (middleware bus) ev = Inr pe \<Longrightarrow>
   snd (snd (emit impl ev (bus, w))) =
     gather impl (matching_handlers (handlers bus) (type ev) []) pe w"
  by (simp add: emit_def Let_def gather_def)

lemma call_handler_exact:
  "call_handler impl h ev w =
     w\<lparr>store := snd (impl h ev (store w)),
       printed := printed w @ error_lines ev (fst (impl h ev (store w))),
       trace := trace w @ [(h, ev, fst (impl h ev (store w)))]\<rparr>"
  by (auto simp: call_handler_def error_lines_def split: prod.splits outcome.splits)

lemma gather_exact:
  "gather impl hs ev w =
     w\<lparr>store := fold (\<lambda>h s. snd (impl h ev s)) hs (store w),
       printed := printed w @
         concat (map (\<lambda>(h, s). error_lines ev (fst (impl h ev s)))
                   (zip hs (stores_before impl hs ev (store w)))),
       trace := trace w @
         map (\<lambda>(h, s). (h, ev, fst (impl h ev s)))
           (zip hs (stores_before impl hs ev (store w)))\<rparr>"
proof (induction hs arbitrary: w)
  case Nil
  show ?case by (simp add: gather_def)
next
  case (Cons h hs)
  have "gather impl (h # hs) ev w = gather impl hs ev (call_handler impl h ev w)"
    by (simp add: gather_def)
  also have "\<dots> = (call_handler impl h ev w)
     \<lparr>store := fold (\<lambda>h s. snd (impl h ev s)) hs (store (call_handler impl h ev w)),
       printed := printed (call_handler impl h ev w) @
         concat (map (\<lambda>(h, s). error_lines ev (fst (impl h ev s)))
                   (zip hs (stores_before impl hs ev (store (call_handler impl h ev w))))),
       trace := trace (call_handler impl h ev w) @
         map (\<lambda>(h, s). (h, ev, fst (impl h ev s)))
           (zip hs (stores_before impl hs ev (store (call_handler impl h ev w))))\<rparr>"
    by (rule Cons.IH)
  also have "\<dots> = w\<lparr>store := fold (\<lambda>h s. snd (impl h ev s)) (h # hs) (store w),
       printed := printed w @
         concat (map (\<lambda>(h, s). error_lines ev (fst (impl h ev s)))
                   (zip (h # hs) (stores_before impl (h # hs) ev (store w)))),
       trace := trace w @
         map (\<lambda>(h, s). (h, ev, fst (impl h ev s)))
           (zip (h # hs) (stores_before impl (h # hs) ev (store w)))\<rparr>"
    by (simp add: call_handler_exact)
  finally show ?case .
qed

lemma length_stores_before: "length (stores_before impl hs ev s) = length hs"
  by (induction hs arbitrary: s) simp_all

lemma map_fst_calls:
  "map fst (map (\<lambda>(h, s). (h, ev, fst (impl h ev s))) (zip hs (stores_before impl hs ev s0))) = hs"
proof -
  have "map fst (map (\<lambda>(h, s). (h, ev, fst (impl h ev s))) (zip hs (stores_before impl hs ev s0)))
      = map fst (zip hs (stores_before impl hs ev s0))"
    by (simp add: case_prod_unfold comp_def)
  also have "\<dots> = hs"
    by (simp add: length_stores_before)
  finally show ?thesis .
qed

lemma raising_bus_eq:
  "raising_bus = \<lparr>handlers = [(''test.*'', [7])], middleware = [raising],
                   history = [], max_history = 1000\<rparr>"
  by (simp add: raising_bus_def use_def on_def EventBus_init_def set_add_def)

lemma raising_bus_emit:
  "emit counting (new_event ''test.event'') (raising_bus, world0) =
     (Inl ''middleware error'', raising_bus\<lparr>history := [new_event ''test.event'']\<rparr>, world0)"
  by (simp add: emit_def raising_bus_eq raising_def Let_def)

lemma step_history:
  "history (fst (step impl op (bus, w))) =
     (case op of
        Op_emit ev \<Rightarrow> (if length (history bus) + 1 > max_history bus
                       then tl (history bus @ [ev]) else history bus @ [ev])
      | Op_clear_history \<Rightarrow> []
      | _ \<Rightarrow> history bus)"
  by (cases op) (simp_all add: on_def off_def use_def clear_history_def emit_bus)

lemma step_max_history:
  "max_history (fst (step impl op (bus, w))) = max_history bus"
  by (cases op) (simp_all add: on_def off_def use_def clear_history_def emit_bus)

lemma append_evict:
  assumes "h = drop (length acc - m) acc"
  shows "(if length h + 1 > m then tl (h @ [ev]) else h @ [ev])
           = drop (length (acc @ [ev]) - m) (acc @ [ev])"
proof (cases "length acc < m")
  case True
  with assms show ?thesis by simp
next
  case False
  then have l: "length h = m" using assms by simp
  have "drop (length (acc @ [ev]) - m) (acc @ [ev]) = drop (Suc (length acc - m)) (acc @ [ev])"
    using False by (simp add: Suc_diff_le)
  also have "\<dots> = tl (drop (length acc - m) (acc @ [ev]))"
    by (simp only: drop_Suc tl_drop)
  also have "drop (length acc - m) (acc @ [ev]) = h @ [ev]"
    using False assms by simp
  finally have e: "tl (h @ [ev]) = drop (length (acc @ [ev]) - m) (acc @ [ev])"
    by (rule sym)
  from l have "length h + 1 > m" by simp
  then show ?thesis by (simp only: e if_True)
qed

lemma run_history:
  "history bus = drop (length acc - max_history bus) acc \<Longrightarrow>
   history (fst (run impl ops (bus, w))) =
     drop (length (since_clear acc ops) - max_history bus) (since_clear acc ops)
   \<and> max_history (fst (run impl ops (bus, w))) = max_history bus"
proof (induction ops arbitrary: bus w acc)
  case Nil
  then show ?case by (simp add: run_def)
next
  case (Cons op ops)
  obtain bus1 w1 where s: "step impl op (bus, w) = (bus1, w1)"
    by (cases "step impl op (bus, w)")
  have m1: "max_history bus1 = max_history bus"
    using step_max_history [of impl op bus w] s by simp
  have h1: "history bus1 =
     (case op of
        Op_emit ev \<Rightarrow> (if length (history bus) + 1 > max_history bus
                       then tl (history bus @ [ev]) else history bus @ [ev])
      | Op_clear_history \<Rightarrow> []
      | _ \<Rightarrow> history bus)"
    using step_history [of impl op bus w] s by simp
  have r: "run impl (op # ops) (bus, w) = run impl ops (bus1, w1)"
    by (simp add: run_def s)
  show ?case
  proof (cases op)
    case (Op_emit ev)
    have "history bus1 = drop (length (acc @ [ev]) - max_history bus1) (acc @ [ev])"
      using h1 Op_emit m1 append_evict [OF Cons.prems, of ev] by simp
    from Cons.IH [OF this, of w1] show ?thesis
      unfolding r by (simp add: Op_emit m1)
  next
    case Op_clear_history
    have "history bus1 = drop (length ([]::Event list) - max_history bus1) []"
      using h1 Op_clear_history by simp
    from Cons.IH [OF this, of w1] show ?thesis
      unfolding r by (simp add: Op_clear_history m1)
  next
    case (Op_on p h)
    have "history bus1 = drop (length acc - max_history bus1) acc"
      using h1 Op_on m1 Cons.prems by simp
    from Cons.IH [OF this, of w1] show ?thesis
      unfolding r by (simp add: Op_on m1)
  next
    case (Op_off p h)
    have "history bus1 = drop (length acc - max_history bus1) acc"
      using h1 Op_off m1 Cons.prems by simp
    from Cons.IH [OF this, of w1] show ?thesis
      unfolding r by (simp add: Op_off m1)
  next
    case (Op_use mw)
    have "history bus1 = drop (length acc - max_history bus1) acc"
      using h1 Op_use m1 Cons.prems by simp
    from Cons.IH [OF this, of w1] show ?thesis
      unfolding r by (simp add: Op_use m1)
  qed
qed

lemma count_distinct:
  "distinct hs \<Longrightarrow> h \<in> set hs \<Longrightarrow> length (filter (\<lambda>y. y = h) hs) = 1"
  by (induction hs) (auto simp: filter_empty_conv)

lemma retype_bus_eq:
  "retype_bus = \<lparr>handlers = [(''a'', [1]), (''b'', [2])], middleware = [retype],
                  history = [], max_history = 1000\<rparr>"
  by (simp add: retype_bus_def use_def on_def EventBus_init_def)

lemma test_bus_eq:
  "test_bus = \<lparr>handlers = [(''test.event'', [1, 2])], middleware = [],
                history = [], max_history = 1000\<rparr>"
  by (simp add: test_bus_def on_def EventBus_init_def set_add_def)

lemma retype_run:
  "run_middleware (middleware retype_bus) (new_event ''a'') = Inr (new_event ''b'')"
  by (simp add: retype_bus_eq retype_def new_event_def)

lemma retype_matching_a:
  "matching_handlers (handlers retype_bus) (type (new_event ''a'')) [] = [1]"
  by (simp add: retype_bus_eq new_event_def matches_pattern_def set_update_def set_add_def)

lemma retype_matching_b:
  "matching_handlers (handlers retype_bus) (type (new_event ''b'')) [] = [2]"
  by (simp add: retype_bus_eq new_event_def matches_pattern_def set_update_def set_add_def)

lemma retype_emit_trace:
  "trace (snd (snd (emit quiet (new_event ''a'') (retype_bus, world0))))
     = [(1, new_event ''b'', Returned)]"
  unfolding emit_world [OF retype_run] retype_matching_a
  by (simp add: gather_def call_handler_def quiet_def world0_def)

lemma test_bus_run:
  "run_middleware (middleware test_bus) (new_event ''test.event'') = Inr (new_event ''test.event'')"
  by (simp add: test_bus_eq)

lemma test_bus_matching:
  "matching_handlers (handlers test_bus) (type (new_event ''test.event'')) [] = [1, 2]"
  by (simp add: test_bus_eq new_event_def matches_pattern_def set_update_def set_add_def)

section \<open>Claims about pattern matching\<close>

text \<open>
  Claim C1. For every pattern \<open>p\<close> and event type \<open>t\<close>, the bus's pattern match is true
  exactly when \<open>p\<close> is the lone wildcard, or \<open>p\<close> and \<open>t\<close> have the same number of
  dot-separated segments and at every position the pattern's segment is the wildcard or
  equal to the event type's segment there. In particular it is false whenever the segment
  counts differ and \<open>p\<close> is not the lone wildcard: a shorter pattern never matches as a
  prefix or as a multi-level wildcard.
\<close>

theorem matches_pattern_segments:
  "matches_pattern t p =
     (p = ''*'' \<or>
      (length (split CHR ''.'' p) = length (split CHR ''.'' t) \<and>
       (\<forall>i < length (split CHR ''.'' p).
          split CHR ''.'' p ! i = ''*'' \<or> split CHR ''.'' p ! i = split CHR ''.'' t ! i)))"
proof (cases "p = ''*''")
  case True
  then show ?thesis by (simp add: matches_pattern_def)
next
  case False
  let ?es = "split CHR ''.'' t" and ?ps = "split CHR ''.'' p"
  show ?thesis
  proof (cases "length ?es = length ?ps")
    case neq: False
    with False show ?thesis by (auto simp: matches_pattern_def Let_def)
  next
    case eq: True
    have "match_parts (zip ?es ?ps) = (\<forall>i < length ?ps. ?ps ! i = ''*'' \<or> ?ps ! i = ?es ! i)"
      unfolding match_parts_iff using eq by (auto simp: set_zip)
    with False eq show ?thesis by (simp add: matches_pattern_def Let_def)
  qed
qed

theorem matches_pattern_segments_witness:
  "matches_pattern ''github.pr.created'' ''github.*.created''
   \<and> \<not> matches_pattern ''github.pr.created'' ''github.*''
   \<and> \<not> matches_pattern ''github.pr.created'' ''github.pr''
   \<and> \<not> matches_pattern ''github.pr.created'' ''github.pr.create''
   \<and> matches_pattern ''github.pr.created'' ''*''"
proof -
  have a: "split CHR ''.'' ''github.pr.created'' = [''github'', ''pr'', ''created'']" by simp
  have b: "split CHR ''.'' ''github.*.created'' = [''github'', ''*'', ''created'']" by simp
  have c: "split CHR ''.'' ''github.*'' = [''github'', ''*'']" by simp
  have d: "split CHR ''.'' ''github.pr'' = [''github'', ''pr'']" by simp
  have e: "split CHR ''.'' ''github.pr.create'' = [''github'', ''pr'', ''create'']" by simp
  show ?thesis
    using matches_pattern_segments [of "''github.pr.created''" "''github.*.created''"]
      matches_pattern_segments [of "''github.pr.created''" "''github.*''"]
      matches_pattern_segments [of "''github.pr.created''" "''github.pr''"]
      matches_pattern_segments [of "''github.pr.created''" "''github.pr.create''"]
      matches_pattern_segments [of "''github.pr.created''" "''*''"]
    unfolding a b c d e by (simp add: All_less_Suc)
qed

section \<open>Claims about the event bus\<close>

text \<open>
  Claim C3, as stated, fails on the code. \<^verbatim>\<open>emit\<close> selects the handlers with
  \<^verbatim>\<open>event.type\<close>, the type of the event it was called with. On a bus whose middleware
  turns type \<^verbatim>\<open>a\<close> into type \<^verbatim>\<open>b\<close>, with handler 1 on \<^verbatim>\<open>a\<close> and handler 2 on \<^verbatim>\<open>b\<close>,
  emitting an event of type \<^verbatim>\<open>a\<close> invokes handler 1, while the patterns matching the
  transformed event's type hold handler 2.
\<close>

theorem emit_matches_emitted_type_not_transformed:
  "run_middleware (middleware retype_bus) (new_event ''a'') = Inr (new_event ''b'')
   \<and> matching_handlers (handlers retype_bus) (type (new_event ''b'')) [] = [2]
   \<and> map fst (trace (snd (snd (emit quiet (new_event ''a'') (retype_bus, world0))))) = [1]"
  by (simp add: retype_run retype_matching_b retype_emit_trace)

text \<open>
  Claim C3, amended. For every emission whose middleware chain returns, the set of
  handlers invoked by \<^verbatim>\<open>emit\<close> is the union, over all registered patterns that match the
  type of the event as it was emitted, of their handler sets; each of them is called with
  the event output by the last middleware.
\<close>

theorem emit_dispatch_set:
  assumes "run_middleware (middleware bus) ev = Inr pe"
  shows "\<exists>new. trace (snd (snd (emit impl ev (bus, w)))) = trace w @ new
      \<and> fst ` set new =
          (\<Union>x \<in> {x \<in> set (handlers bus). matches_pattern (type ev) (fst x)}. set (snd x))
      \<and> (\<forall>x \<in> set new. fst (snd x) = pe)"
proof -
  let ?hs = "matching_handlers (handlers bus) (type ev) []"
  obtain new where new: "trace (gather impl ?hs pe w) = trace w @ new" "map fst new = ?hs"
    "\<forall>x \<in> set new. fst (snd x) = pe"
    using gather_effect [of impl ?hs pe w] by blast
  have "fst ` set new = set ?hs"
    using new(2) by (metis set_map)
  then have s: "fst ` set new =
      (\<Union>x \<in> {x \<in> set (handlers bus). matches_pattern (type ev) (fst x)}. set (snd x))"
    by (simp add: set_matching_handlers)
  have t: "trace (snd (snd (emit impl ev (bus, w)))) = trace w @ new"
    using new(1) by (simp add: emit_world [OF assms])
  show ?thesis
    by (rule exI [of _ new]) (intro conjI t s new(3))
qed

text \<open>
  The amended claim on the bus above: handler 1 alone is invoked, with the event of
  type \<^verbatim>\<open>b\<close>.
\<close>

theorem emit_dispatch_set_witness:
  "run_middleware (middleware retype_bus) (new_event ''a'') = Inr (new_event ''b'')
   \<and> (\<exists>new. trace (snd (snd (emit quiet (new_event ''a'') (retype_bus, world0)))) = trace world0 @ new
      \<and> fst ` set new = {1}
      \<and> (\<forall>x \<in> set new. fst (snd x) = new_event ''b''))"
proof -
  have u: "(\<Union>x \<in> {x \<in> set (handlers retype_bus).
              matches_pattern (type (new_event ''a'')) (fst x)}. set (snd x)) = {1}"
    using set_matching_handlers [of "handlers retype_bus" "type (new_event ''a'')" "[]"]
    by (simp add: retype_matching_a)
  show ?thesis
    using emit_dispatch_set [OF retype_run, of quiet world0] retype_run
    unfolding u by simp
qed

text \<open>
  Claim C5. The only exception that reaches the caller of \<^verbatim>\<open>emit\<close> is one raised by
  a middleware. Once the middleware chain has returned, \<^verbatim>\<open>emit\<close> returns normally
  whatever the handlers do. Every matched handler is called with the processed event on
  the state its predecessors left, also after one of them raised, and the call ends the
  way the handler ends there. The output gains exactly one line for each call that
  raised, with the event's type and the exception's message, and the handlers' state
  after the emission is the one that all the calls produce in turn.
\<close>

theorem handler_failure_isolated:
  "fst (emit impl ev (bus, w)) =
     (case run_middleware (middleware bus) ev of Inl e \<Rightarrow> Inl e | Inr pe \<Rightarrow> Inr ())
   \<and> (run_middleware (middleware bus) ev = Inr pe \<longrightarrow>
        (let hs = matching_handlers (handlers bus) (type ev) [];
             calls = zip hs (stores_before impl hs pe (store w));
             w' = snd (snd (emit impl ev (bus, w)))
         in fst (emit impl ev (bus, w)) = Inr ()
            \<and> trace w' = trace w @ map (\<lambda>(h, s). (h, pe, fst (impl h pe s))) calls
            \<and> map fst (drop (length (trace w)) (trace w')) = hs
            \<and> printed w' =
                printed w @ concat (map (\<lambda>(h, s). error_lines pe (fst (impl h pe s))) calls)
            \<and> store w' = fold (\<lambda>h s. snd (impl h pe s)) hs (store w)))"
proof (intro conjI impI)
  show "fst (emit impl ev (bus, w)) =
     (case run_middleware (middleware bus) ev of Inl e \<Rightarrow> Inl e | Inr pe \<Rightarrow> Inr ())"
    by (rule emit_result)
next
  assume m: "run_middleware (middleware bus) ev = Inr pe"
  let ?hs = "matching_handlers (handlers bus) (type ev) []"
  let ?calls = "zip ?hs (stores_before impl ?hs pe (store w))"
  let ?w' = "snd (snd (emit impl ev (bus, w)))"
  have r: "fst (emit impl ev (bus, w)) = Inr ()"
    using m by (simp add: emit_result)
  have w': "?w' = gather impl ?hs pe w"
    by (rule emit_world [OF m])
  have t: "trace ?w' = trace w @ map (\<lambda>(h, s). (h, pe, fst (impl h pe s))) ?calls"
    unfolding w' by (subst gather_exact) simp
  have p: "printed ?w' =
      printed w @ concat (map (\<lambda>(h, s). error_lines pe (fst (impl h pe s))) ?calls)"
    unfolding w' by (subst gather_exact) simp
  have s: "store ?w' = fold (\<lambda>h s. snd (impl h pe s)) ?hs (store w)"
    unfolding w' by (subst gather_exact) simp
  have f: "map fst (drop (length (trace w)) (trace ?w')) = ?hs"
    unfolding t by (simp only: append_eq_conv_conj drop_append diff_self_eq_0 drop_0 drop_all
        order_refl append_Nil map_fst_calls)
  show "let hs = matching_handlers (handlers bus) (type ev) [];
             calls = zip hs (stores_before impl hs pe (store w));
             w' = snd (snd (emit impl ev (bus, w)))
         in fst (emit impl ev (bus, w)) = Inr ()
            \<and> trace w' = trace w @ map (\<lambda>(h, s). (h, pe, fst (impl h pe s))) calls
            \<and> map fst (drop (length (trace w)) (trace w')) = hs
            \<and> printed w' =
                printed w @ concat (map (\<lambda>(h, s). error_lines pe (fst (impl h pe s))) calls)
            \<and> store w' = fold (\<lambda>h s. snd (impl h pe s)) hs (store w)"
    unfolding Let_def by (intro conjI r t f p s)
qed

text \<open>
  Claim C5 on the repository's test: handler 1 raises and its error is printed, handler
  2 still runs and counts its call, and \<^verbatim>\<open>emit\<close> returns normally.
\<close>

theorem handler_failure_isolated_witness:
  "run_middleware (middleware test_bus) (new_event ''test.event'') = Inr (new_event ''test.event'')
   \<and> fst (emit failing_first (new_event ''test.event'') (test_bus, world0)) = Inr ()
   \<and> trace (snd (snd (emit failing_first (new_event ''test.event'') (test_bus, world0))))
       = [(1, new_event ''test.event'', Raised ''Handler error''),
          (2, new_event ''test.event'', Returned)]
   \<and> printed (snd (snd (emit failing_first (new_event ''test.event'') (test_bus, world0))))
       = [''Event handler error for test.event: Handler error'']
   \<and> store (snd (snd (emit failing_first (new_event ''test.event'') (test_bus, world0)))) = 1"
proof -
  note t = handler_failure_isolated [of failing_first "new_event ''test.event''" test_bus world0
        "new_event ''test.event''"]
  from t test_bus_run have
    "let hs = matching_handlers (handlers test_bus) (type (new_event ''test.event'')) [];
         calls = zip hs (stores_before failing_first hs (new_event ''test.event'') (store world0));
         w' = snd (snd (emit failing_first (new_event ''test.event'') (test_bus, world0)))
     in fst (emit failing_first (new_event ''test.event'') (test_bus, world0)) = Inr ()
        \<and> trace w' = trace world0 @
             map (\<lambda>(h, s). (h, new_event ''test.event'',
                    fst (failing_first h (new_event ''test.event'') s))) calls
        \<and> map fst (drop (length (trace world0)) (trace w')) = hs
        \<and> printed w' = printed world0 @
             concat (map (\<lambda>(h, s). error_lines (new_event ''test.event'')
                    (fst (failing_first h (new_event ''test.event'') s))) calls)
        \<and> store w' = fold (\<lambda>h s. snd (failing_first h (new_event ''test.event'') s)) hs
             (store world0)"
    by blast
  then have
    "fst (emit failing_first (new_event ''test.event'') (test_bus, world0)) = Inr ()
     \<and> trace (snd (snd (emit failing_first (new_event ''test.event'') (test_bus, world0))))
       = [(1, new_event ''test.event'', Raised ''Handler error''),
          (2, new_event ''test.event'', Returned)]
     \<and> printed (snd (snd (emit failing_first (new_event ''test.event'') (test_bus, world0))))
       = [''Event handler error for test.event: Handler error'']
     \<and> store (snd (snd (emit failing_first (new_event ''test.event'') (test_bus, world0)))) = 1"
    unfolding test_bus_matching Let_def
    by (simp add: failing_first_def world0_def error_lines_def new_event_def)
  with test_bus_run show ?thesis by blast
qed

text \<open>
  Claim C7. After every sequence of operations on a new bus whose maximum is \<open>m\<close>, the
  history is the last \<open>m\<close> events emitted since the last \<^verbatim>\<open>clear_history\<close>, in the
  order of their emission: it never holds more than \<open>m\<close> events, and the events missing
  from it are the oldest. The bus as constructed has \<open>m = 1000\<close>.
\<close>

theorem history_bounded_fifo:
  "history (fst (run impl ops (EventBus_init\<lparr>max_history := m\<rparr>, w))) =
     drop (length (since_clear [] ops) - m) (since_clear [] ops)
   \<and> length (history (fst (run impl ops (EventBus_init\<lparr>max_history := m\<rparr>, w)))) \<le> m
   \<and> length (history (fst (run impl ops (EventBus_init, w)))) \<le> 1000"
proof -
  have a: "history (fst (run impl ops (EventBus_init\<lparr>max_history := m\<rparr>, w))) =
     drop (length (since_clear [] ops) - m) (since_clear [] ops)" for m
    using run_history [of "EventBus_init\<lparr>max_history := m\<rparr>" "[]" impl ops w]
    by (simp add: EventBus_init_def)
  have b: "length (history (fst (run impl ops (EventBus_init\<lparr>max_history := m\<rparr>, w)))) \<le> m" for m
    unfolding a by simp
  have "EventBus_init\<lparr>max_history := 1000\<rparr> = EventBus_init"
    by (simp add: EventBus_init_def)
  with b [of 1000] have c: "length (history (fst (run impl ops (EventBus_init, w)))) \<le> 1000"
    by simp
  from a b c show ?thesis by blast
qed

text \<open>
  Claim C8, as stated, fails on the code. The middleware loop of \<^verbatim>\<open>emit\<close> runs outside
  any \<^verbatim>\<open>try\<close>: on a bus whose middleware raises, with handler 7 registered twice under
  \<^verbatim>\<open>test.*\<close>, emitting an event of type \<^verbatim>\<open>test.event\<close> hands the exception to the caller
  and calls handler 7 not once but never.
\<close>

theorem on_twice_middleware_raises:
  "raising_bus = use raising (on ''test.*'' 7 (on ''test.*'' 7 EventBus_init))
   \<and> matches_pattern (type (new_event ''test.event'')) ''test.*''
   \<and> fst (emit counting (new_event ''test.event'') (raising_bus, world0)) = Inl ''middleware error''
   \<and> trace (snd (snd (emit counting (new_event ''test.event'') (raising_bus, world0)))) = []
   \<and> store (snd (snd (emit counting (new_event ''test.event'') (raising_bus, world0)))) = 0"
proof -
  have a: "raising_bus = use raising (on ''test.*'' 7 (on ''test.*'' 7 EventBus_init))"
    by (rule raising_bus_def)
  have b: "matches_pattern (type (new_event ''test.event'')) ''test.*''"
    by (simp add: new_event_def matches_pattern_def)
  have c: "fst (emit counting (new_event ''test.event'') (raising_bus, world0))
             = Inl ''middleware error''"
    by (simp add: raising_bus_emit)
  have d: "trace (snd (snd (emit counting (new_event ''test.event'') (raising_bus, world0)))) = []"
    unfolding raising_bus_emit by (simp add: world0_def)
  have e: "store (snd (snd (emit counting (new_event ''test.event'') (raising_bus, world0)))) = 0"
    unfolding raising_bus_emit by (simp add: world0_def)
  show ?thesis
    by (intro conjI a b c d e)
qed

text \<open>
  Claim C8, amended. Registering handler \<open>h\<close> under pattern \<open>p\<close> a second time leaves
  the bus as the first registration left it, and an emission whose type matches \<open>p\<close> and
  whose middleware chain returns invokes \<open>h\<close> exactly once: \<open>h\<close> occurs once among the
  handlers dispatched, the calls made are those of the dispatched handlers in turn, one
  call of \<open>h\<close> is recorded, and the handlers' state is changed by one run of each.
\<close>

theorem on_twice_invoked_once:
  "on p h (on p h bus) = on p h bus
   \<and> (matches_pattern (type ev) p \<and> run_middleware (middleware bus) ev = Inr pe \<longrightarrow>
        (let hs = matching_handlers (handlers (on p h (on p h bus))) (type ev) [];
             w' = snd (snd (emit impl ev (on p h (on p h bus), w)))
         in length (filter (\<lambda>y. y = h) hs) = 1
            \<and> trace w' = trace w @
                 map (\<lambda>(h, s). (h, pe, fst (impl h pe s)))
                   (zip hs (stores_before impl hs pe (store w)))
            \<and> length (filter (\<lambda>x. fst x = h) (trace w'))
                 = length (filter (\<lambda>x. fst x = h) (trace w)) + 1
            \<and> store w' = fold (\<lambda>h s. snd (impl h pe s)) hs (store w)))"
proof (intro conjI impI)
  show idem: "on p h (on p h bus) = on p h bus"
    by (simp add: on_def handlers_add_idem)
  assume a: "matches_pattern (type ev) p \<and> run_middleware (middleware bus) ev = Inr pe"
  let ?bus = "on p h bus"
  let ?hs = "matching_handlers (handlers ?bus) (type ev) []"
  let ?new = "map (\<lambda>(h, s). (h, pe, fst (impl h pe s)))
                   (zip ?hs (stores_before impl ?hs pe (store w)))"
  let ?w' = "snd (snd (emit impl ev (?bus, w)))"
  have m: "run_middleware (middleware ?bus) ev = Inr pe"
    using a by (simp add: on_def)
  have w': "?w' = gather impl ?hs pe w"
    by (rule emit_world [OF m])
  obtain hs where hs: "(p, hs) \<in> set (handlers ?bus)" "h \<in> set hs"
    using handlers_add_registers [of p "handlers bus" h] by (auto simp: on_def)
  have "h \<in> set ?hs"
    unfolding set_matching_handlers using hs a by force
  moreover have "distinct ?hs"
    by (simp add: distinct_matching_handlers)
  ultimately have c: "length (filter (\<lambda>y. y = h) ?hs) = 1"
    by (simp add: count_distinct)
  have t: "trace ?w' = trace w @ ?new"
    unfolding w' by (subst gather_exact) simp
  have s: "store ?w' = fold (\<lambda>h s. snd (impl h pe s)) ?hs (store w)"
    unfolding w' by (subst gather_exact) simp
  have "length (filter (\<lambda>y. y = h) (map fst ?new)) = 1"
    using c by (simp only: map_fst_calls)
  then have one: "length (filter (\<lambda>x. fst x = h) ?new) = 1"
    by (simp add: filter_map comp_def)
  have n: "length (filter (\<lambda>x. fst x = h) (trace ?w'))
                 = length (filter (\<lambda>x. fst x = h) (trace w)) + 1"
    unfolding t using one by simp
  show "let hs = matching_handlers (handlers (on p h (on p h bus))) (type ev) [];
             w' = snd (snd (emit impl ev (on p h (on p h bus), w)))
         in length (filter (\<lambda>y. y = h) hs) = 1
            \<and> trace w' = trace w @
                 map (\<lambda>(h, s). (h, pe, fst (impl h pe s)))
                   (zip hs (stores_before impl hs pe (store w)))
            \<and> length (filter (\<lambda>x. fst x = h) (trace w'))
                 = length (filter (\<lambda>x. fst x = h) (trace w)) + 1
            \<and> store w' = fold (\<lambda>h s. snd (impl h pe s)) hs (store w)"
    unfolding idem Let_def by (intro conjI c t n s)
qed

text \<open>
  The amended claim on a new bus with one counting handler registered twice under
  \<^verbatim>\<open>test.*\<close>: one call is recorded and the count is 1.
\<close>

theorem on_twice_invoked_once_witness:
  "on ''test.*'' 7 (on ''test.*'' 7 EventBus_init) = on ''test.*'' 7 EventBus_init
   \<and> matches_pattern (type (new_event ''test.event'')) ''test.*''
   \<and> run_middleware (middleware EventBus_init) (new_event ''test.event'')
        = Inr (new_event ''test.event'')
   \<and> trace (snd (snd (emit counting (new_event ''test.event'')
             (on ''test.*'' 7 (on ''test.*'' 7 EventBus_init), world0))))
        = [(7, new_event ''test.event'', Returned)]
   \<and> store (snd (snd (emit counting (new_event ''test.event'')
             (on ''test.*'' 7 (on ''test.*'' 7 EventBus_init), world0)))) = 1"
proof -
  have a: "matches_pattern (type (new_event ''test.event'')) ''test.*''"
    by (simp add: new_event_def matches_pattern_def)
  have b: "run_middleware (middleware EventBus_init) (new_event ''test.event'')
        = Inr (new_event ''test.event'')"
    by (simp add: EventBus_init_def)
  have hs: "matching_handlers (handlers (on ''test.*'' 7 (on ''test.*'' 7 EventBus_init)))
              (type (new_event ''test.event'')) [] = [7]"
    by (simp add: on_def EventBus_init_def set_add_def set_update_def new_event_def
        matches_pattern_def)
  note t = on_twice_invoked_once [of "''test.*''" 7 EventBus_init "new_event ''test.event''"
        "new_event ''test.event''" counting world0]
  from t have d: "on ''test.*'' 7 (on ''test.*'' 7 EventBus_init) = on ''test.*'' 7 EventBus_init"
    by (rule conjunct1)
  from t a b have
    "let hs = matching_handlers (handlers (on ''test.*'' 7 (on ''test.*'' 7 EventBus_init)))
                (type (new_event ''test.event'')) [];
         w' = snd (snd (emit counting (new_event ''test.event'')
                (on ''test.*'' 7 (on ''test.*'' 7 EventBus_init), world0)))
     in length (filter (\<lambda>y. y = 7) hs) = 1
        \<and> trace w' = trace world0 @
             map (\<lambda>(h, s). (h, new_event ''test.event'',
                    fst (counting h (new_event ''test.event'') s)))
               (zip hs (stores_before counting hs (new_event ''test.event'') (store world0)))
        \<and> length (filter (\<lambda>x. fst x = 7) (trace w'))
             = length (filter (\<lambda>x. fst x = 7) (trace world0)) + 1
        \<and> store w' = fold (\<lambda>h s. snd (counting h (new_event ''test.event'') s)) hs
             (store world0)"
    by blast
  then have e:
    "trace (snd (snd (emit counting (new_event ''test.event'')
             (on ''test.*'' 7 (on ''test.*'' 7 EventBus_init), world0))))
        = [(7, new_event ''test.event'', Returned)]
     \<and> store (snd (snd (emit counting (new_event ''test.event'')
             (on ''test.*'' 7 (on ''test.*'' 7 EventBus_init), world0)))) = 1"
    unfolding hs Let_def by (simp add: counting_def world0_def)
  from d a b e show ?thesis by blast
qed

section \<open>Claims about the state store\<close>

text \<open>
  Claim C2, as stated, fails on the code. The claim treats the stored version of a key
  without a record as 0 and has the first write rejected unless it declares version 1.
  \<^verbatim>\<open>FileStateBackend.set\<close> compares versions only under the guard \<^verbatim>\<open>if existing and ...\<close>:
  with no record for the key, a record declaring version 5 is written and \<^verbatim>\<open>True\<close> is
  returned.
\<close>

theorem set_first_write_any_version:
  "fst (FileStateBackend_set [] \<lparr>key = ''k'', val = JNull, version = 5, metadata = []\<rparr>) = True
   \<and> FileStateBackend_get [] ''k'' = None
   \<and> (5::int) \<noteq> 0 + 1"
  by (simp add: FileStateBackend_set_def FileStateBackend_get_def Let_def)

text \<open>
  Claim C2, amended. \<^verbatim>\<open>FileStateBackend.set\<close> returns \<^verbatim>\<open>False\<close> exactly when a readable
  record is stored for the key and the declared version is not exactly one greater than
  that record's version, and then the directory is left as it was. When no readable
  record is stored for the key, the write is accepted whatever version it declares, and
  the record is read back as written.
\<close>

theorem set_version_check:
  "(fst (FileStateBackend_set dir st) = False \<longleftrightarrow>
      (\<exists>ex. FileStateBackend_get dir (key st) = Some ex \<and> version st \<noteq> version ex + 1))
   \<and> (fst (FileStateBackend_set dir st) = False \<longrightarrow> snd (FileStateBackend_set dir st) = dir)
   \<and> (FileStateBackend_get dir (key st) = None \<longrightarrow>
        fst (FileStateBackend_set dir st) = True
        \<and> FileStateBackend_get (snd (FileStateBackend_set dir st)) (key st) = Some st)"
proof (cases "FileStateBackend_get dir (key st)")
  case None
  then have "FileStateBackend_set dir st =
     (True, AList.update (file_path (key st))
        (Decoded \<lparr>doc_key = Some (key st), doc_value = Some (val st),
                  doc_version = Some (version st), doc_metadata = Some (metadata st)\<rparr>) dir)"
    by (simp add: set_accepts)
  with None show ?thesis by (simp add: get_after_write)
next
  case (Some ex)
  show ?thesis
  proof (cases "version ex = version st - 1")
    case True
    with Some have "fst (FileStateBackend_set dir st) = True"
      by (simp add: set_accepts)
    with Some True show ?thesis by auto
  next
    case False
    with Some have "FileStateBackend_set dir st = (False, dir)"
      by (simp add: set_rejects)
    with Some False show ?thesis by auto
  qed
qed

text \<open>
  The amended claim at a stored record of version 3 receiving a write that declares
  version 7, and at an empty directory receiving the same write.
\<close>

theorem set_version_check_witness:
  "fst (FileStateBackend_set
          [(''k.json'', Decoded \<lparr>doc_key = Some ''k'', doc_value = Some JNull,
                                  doc_version = Some 3, doc_metadata = Some []\<rparr>)]
          \<lparr>key = ''k'', val = JStr ''v'', version = 7, metadata = []\<rparr>) = False
   \<and> snd (FileStateBackend_set
          [(''k.json'', Decoded \<lparr>doc_key = Some ''k'', doc_value = Some JNull,
                                  doc_version = Some 3, doc_metadata = Some []\<rparr>)]
          \<lparr>key = ''k'', val = JStr ''v'', version = 7, metadata = []\<rparr>)
       = [(''k.json'', Decoded \<lparr>doc_key = Some ''k'', doc_value = Some JNull,
                                  doc_version = Some 3, doc_metadata = Some []\<rparr>)]
   \<and> FileStateBackend_get [] ''k'' = None
   \<and> fst (FileStateBackend_set [] \<lparr>key = ''k'', val = JStr ''v'', version = 7, metadata = []\<rparr>) = True
   \<and> FileStateBackend_get
        (snd (FileStateBackend_set [] \<lparr>key = ''k'', val = JStr ''v'', version = 7, metadata = []\<rparr>)) ''k''
       = Some \<lparr>key = ''k'', val = JStr ''v'', version = 7, metadata = []\<rparr>"
proof -
  let ?dir = "[(''k.json'', Decoded \<lparr>doc_key = Some ''k'', doc_value = Some JNull,
                                  doc_version = Some 3, doc_metadata = Some []\<rparr>)]"
  let ?st = "\<lparr>key = ''k'', val = JStr ''v'', version = 7, metadata = []\<rparr>"
  have g: "FileStateBackend_get ?dir ''k''
           = Some \<lparr>key = ''k'', val = JNull, version = 3, metadata = []\<rparr>"
    by (simp add: FileStateBackend_get_def file_path_def replace_def State_init_def)
  have n: "FileStateBackend_get [] ''k'' = None"
    by (simp add: FileStateBackend_get_def)
  show ?thesis
    using set_version_check [of ?dir ?st] set_version_check [of "[]" ?st] g n by simp
qed

text \<open>
  Claim C6. For every key and every integer \<open>n\<close>, \<^verbatim>\<open>StateManager.update\<close> with
  \<^verbatim>\<open>version=n\<close> returns \<^verbatim>\<open>False\<close> and leaves the directory unchanged when no record is
  stored for the key or the stored record's version differs from \<open>n\<close>; otherwise it
  returns \<^verbatim>\<open>True\<close> and the record then stored for the key has the new value and version
  \<open>n + 1\<close>.
\<close>

theorem update_optimistic_lock:
  "(FileStateBackend_get dir k = None \<or>
      (\<exists>ex. FileStateBackend_get dir k = Some ex \<and> version ex \<noteq> n)
    \<longrightarrow> StateManager_update dir k v (Some n) = (False, dir))
   \<and> ((\<exists>ex. FileStateBackend_get dir k = Some ex \<and> version ex = n)
    \<longrightarrow> fst (StateManager_update dir k v (Some n)) = True
        \<and> (\<exists>s. FileStateBackend_get (snd (StateManager_update dir k v (Some n))) k = Some s
               \<and> key s = k \<and> val s = v \<and> version s = n + 1))"
proof (intro conjI impI)
  assume "FileStateBackend_get dir k = None \<or>
      (\<exists>ex. FileStateBackend_get dir k = Some ex \<and> version ex \<noteq> n)"
  then show "StateManager_update dir k v (Some n) = (False, dir)"
    by (rule update_conflict)
next
  assume "\<exists>ex. FileStateBackend_get dir k = Some ex \<and> version ex = n"
  then obtain ex where ex: "FileStateBackend_get dir k = Some ex" "version ex = n" by blast
  then have eq: "StateManager_update dir k v (Some n) =
     (True, AList.update (file_path k)
        (Decoded \<lparr>doc_key = Some k, doc_value = Some v,
                  doc_version = Some (version ex + 1), doc_metadata = Some (metadata ex)\<rparr>) dir)"
    by (intro update_proceeds) simp_all
  show "fst (StateManager_update dir k v (Some n)) = True"
    by (simp add: eq)
  show "\<exists>s. FileStateBackend_get (snd (StateManager_update dir k v (Some n))) k = Some s
               \<and> key s = k \<and> val s = v \<and> version s = n + 1"
    using ex(2) by (simp add: eq get_after_write)
qed

text \<open>
  Claim C6 at a record of version 3: an update expecting version 2 and an update of a
  missing key are refused, an update expecting version 3 stores version 4.
\<close>

theorem update_optimistic_lock_witness:
  "StateManager_update dir1 ''k'' (JInt 1) (Some 2) = (False, dir1)
   \<and> StateManager_update [] ''k'' (JInt 1) (Some 0) = (False, [])
   \<and> fst (StateManager_update dir1 ''k'' (JInt 1) (Some 3)) = True
   \<and> (\<exists>s. FileStateBackend_get (snd (StateManager_update dir1 ''k'' (JInt 1) (Some 3))) ''k'' = Some s
          \<and> key s = ''k'' \<and> val s = JInt 1 \<and> version s = 3 + 1)"
proof -
  have n: "FileStateBackend_get [] ''k'' = None"
    by (simp add: FileStateBackend_get_def)
  show ?thesis
    using update_optimistic_lock [of dir1 "''k''" 2 "JInt 1"]
      update_optimistic_lock [of "[]" "''k''" 0 "JInt 1"]
      update_optimistic_lock [of dir1 "''k''" 3 "JInt 1"] get_dir1 n
    by simp
qed

text \<open>
  Claim C9. For every key whose file exists but holds text that does not decode, or an
  object without its \<^verbatim>\<open>key\<close> or \<^verbatim>\<open>value\<close> field, \<^verbatim>\<open>FileStateBackend.get\<close> reports
  the key absent, \<^verbatim>\<open>FileStateBackend.delete\<close> of the same key returns \<^verbatim>\<open>True\<close>, and
  \<^verbatim>\<open>FileStateBackend.set\<close> accepts a record for the key whatever version it declares, as
  it does when no record exists.
\<close>

theorem unreadable_file:
  assumes "map_of dir (file_path k) = Some c"
    and "c = Undecodable \<or> (\<exists>d. c = Decoded d \<and> (doc_key d = None \<or> doc_value d = None))"
  shows "FileStateBackend_get dir k = None
     \<and> fst (FileStateBackend_delete dir k) = True
     \<and> (\<forall>st. key st = k \<longrightarrow> fst (FileStateBackend_set dir st) = True)"
proof -
  have g: "FileStateBackend_get dir k = None"
    using assms by (auto simp: FileStateBackend_get_def split: option.splits)
  have d: "fst (FileStateBackend_delete dir k) = True"
    using assms(1) by (simp add: FileStateBackend_delete_def Let_def)
  have s: "fst (FileStateBackend_set dir st) = True" if "key st = k" for st
    using g that by (simp add: set_accepts)
  from g d s show ?thesis by blast
qed

text \<open>
  Claim C9 at a file of undecodable text and at a file whose object has no \<^verbatim>\<open>value\<close>.
\<close>

theorem unreadable_file_witness:
  "FileStateBackend_get [(''k.json'', Undecodable)] ''k'' = None
   \<and> fst (FileStateBackend_delete [(''k.json'', Undecodable)] ''k'') = True
   \<and> fst (FileStateBackend_set [(''k.json'', Undecodable)]
            \<lparr>key = ''k'', val = JNull, version = 9, metadata = []\<rparr>) = True
   \<and> FileStateBackend_get
        [(''k.json'', Decoded \<lparr>doc_key = Some ''k'', doc_value = None,
                                 doc_version = Some 4, doc_metadata = None\<rparr>)] ''k'' = None
   \<and> fst (FileStateBackend_delete
        [(''k.json'', Decoded \<lparr>doc_key = Some ''k'', doc_value = None,
                                 doc_version = Some 4, doc_metadata = None\<rparr>)] ''k'') = True"
proof -
  have p: "file_path ''k'' = ''k.json''"
    by (simp add: file_path_def replace_def)
  show ?thesis
    using unreadable_file [of "[(''k.json'', Undecodable)]" "''k''" Undecodable]
      unreadable_file [of "[(''k.json'', Decoded \<lparr>doc_key = Some ''k'', doc_value = None,
                                 doc_version = Some 4, doc_metadata = None\<rparr>)]" "''k''"
          "Decoded \<lparr>doc_key = Some ''k'', doc_value = None,
                                 doc_version = Some 4, doc_metadata = None\<rparr>"]
    by (simp add: p)
qed

text \<open>
  Claim C10. For every key with a stored record, a successful \<^verbatim>\<open>StateManager.update\<close>
  stores a record whose metadata is the metadata of the record stored before, whereas
  \<^verbatim>\<open>StateManager.set\<close> called without metadata stores a record whose metadata is the
  empty mapping.
\<close>

theorem update_keeps_metadata:
  assumes "FileStateBackend_get dir k = Some ex"
  shows "(fst (StateManager_update dir k v expected) = True \<longrightarrow>
           (\<exists>s. FileStateBackend_get (snd (StateManager_update dir k v expected)) k = Some s
                \<and> metadata s = metadata ex))
     \<and> (\<exists>s. FileStateBackend_get (StateManager_set dir k v None) k = Some s
            \<and> metadata s = [])"
proof (intro conjI impI)
  assume ok: "fst (StateManager_update dir k v expected) = True"
  have "expected = None \<or> expected = Some (version ex)"
  proof (rule ccontr)
    assume "\<not> (expected = None \<or> expected = Some (version ex))"
    then obtain n where "expected = Some n" "version ex \<noteq> n" by (cases expected) auto
    with assms have "StateManager_update dir k v expected = (False, dir)"
      by (simp add: update_conflict)
    with ok show False by simp
  qed
  with assms show "\<exists>s. FileStateBackend_get (snd (StateManager_update dir k v expected)) k = Some s
                \<and> metadata s = metadata ex"
    by (simp add: update_proceeds get_after_write)
next
  show "\<exists>s. FileStateBackend_get (StateManager_set dir k v None) k = Some s \<and> metadata s = []"
    by (simp add: manager_set_writes get_after_write)
qed

text \<open>
  Claim C10 at a record carrying one metadata entry.
\<close>

theorem update_keeps_metadata_witness:
  "fst (StateManager_update dir1 ''k'' (JInt 1) (Some 3)) = True
   \<and> (\<exists>s. FileStateBackend_get (snd (StateManager_update dir1 ''k'' (JInt 1) (Some 3))) ''k'' = Some s
          \<and> metadata s = [(''by'', JStr ''a'')])
   \<and> (\<exists>s. FileStateBackend_get (StateManager_set dir1 ''k'' (JInt 1) None) ''k'' = Some s
          \<and> metadata s = [])"
proof -
  have ok: "fst (StateManager_update dir1 ''k'' (JInt 1) (Some 3)) = True"
    by (simp add: update_proceeds [OF get_dir1])
  show ?thesis
    using update_keeps_metadata [OF get_dir1, of "JInt 1" "Some 3"] ok by simp
qed

text \<open>
  Claim C4 fails on the code. After \<^verbatim>\<open>set("pr:owner/repo#42", ...)\<close> on an empty store,
  \<^verbatim>\<open>list("pr:")\<close> returns the file stem \<^verbatim>\<open>pr:owner_repo#42\<close>, which is not the key the
  caller supplied, and \<^verbatim>\<open>list("pr:owner/")\<close> returns nothing although the stored key
  starts with that prefix; \<^verbatim>\<open>get\<close> of the same key returns the record under its
  original key.
\<close>

theorem list_keys_sanitized:
  "StateManager_list (StateManager_set [] ''pr:owner/repo#42'' (JStr ''open'') None) ''pr:''
     = [''pr:owner_repo#42'']
   \<and> StateManager_list (StateManager_set [] ''pr:owner/repo#42'' (JStr ''open'') None) ''pr:owner/''
     = []
   \<and> (\<exists>s. FileStateBackend_get (StateManager_set [] ''pr:owner/repo#42'' (JStr ''open'') None)
            ''pr:owner/repo#42'' = Some s \<and> key s = ''pr:owner/repo#42'')"
proof -
  have p: "file_path ''pr:owner/repo#42'' = ''pr:owner_repo#42.json''"
    by (simp add: file_path_def replace_def)
  have g: "FileStateBackend_get [] ''pr:owner/repo#42'' = None"
    by (simp add: FileStateBackend_get_def)
  have w: "StateManager_set [] ''pr:owner/repo#42'' (JStr ''open'') None =
     [(''pr:owner_repo#42.json'',
       Decoded \<lparr>doc_key = Some ''pr:owner/repo#42'', doc_value = Some (JStr ''open''),
                 doc_version = Some 1, doc_metadata = Some []\<rparr>)]"
    by (simp add: manager_set_writes g p)
  have s: "stem ''pr:owner_repo#42.json'' = ''pr:owner_repo#42''"
    by (simp add: stem_def)
  have l1: "StateManager_list (StateManager_set [] ''pr:owner/repo#42'' (JStr ''open'') None) ''pr:''
     = [''pr:owner_repo#42'']"
    unfolding w
    by (simp add: StateManager_list_def FileStateBackend_list_keys_def glob_json_def
        endswith_def startswith_def s)
  have l2: "StateManager_list (StateManager_set [] ''pr:owner/repo#42'' (JStr ''open'') None) ''pr:owner/''
     = []"
    unfolding w
    by (simp add: StateManager_list_def FileStateBackend_list_keys_def glob_json_def
        endswith_def startswith_def s)
  have l3: "\<exists>s. FileStateBackend_get (StateManager_set [] ''pr:owner/repo#42'' (JStr ''open'') None)
            ''pr:owner/repo#42'' = Some s \<and> key s = ''pr:owner/repo#42''"
    unfolding w by (simp add: FileStateBackend_get_def p State_init_def)
  from l1 l2 l3 show ?thesis by blast
qed

end
